theory Spec2Isabelle
  imports Complex_Main "HOL-Library.AList"
begin

section \<open>The external collaborators: VISA transport and the clock\<close>

text \<open>
  \<^verbatim>\<open>GPIB.py\<close> talks to two things it does not implement: the PyVISA resource manager
  with the instrument handles it opens, and the \<^verbatim>\<open>time\<close> module. Both are modelled
  as explicit state. A handle is the identity of the Python object returned by
  \<^verbatim>\<open>rm.open_resource\<close>; every call of it creates a new object, so handles are
  allocated from a counter.
\<close>

type_synonym handle = nat

text \<open>Instances of Python's \<^verbatim>\<open>Exception\<close>, the class every handler of the module catches.\<close>

datatype exn = VisaIOError string | ValueError string | KeyError string

text \<open>The calls the module makes on the resource manager and on a handle.\<close>

datatype call =
    NewResourceManager "string option"
  | ListResources
  | OpenResource string
  | SetTimeout handle nat
  | SetWriteTermination handle string
  | SetReadTermination handle string
  | Write handle string
  | Query handle string
  | Read handle
  | Close handle
  | RmClose

datatype outcome = Raised exn | Done | Str string | Strs "string list" | Opened handle

text \<open>One transport call as it happened: the time of the call, the call, what came back.\<close>

type_synonym entry = "rat \<times> call \<times> outcome"

text \<open>
  The behaviour of the transport is arbitrary: whether a call raises and what it returns
  may depend on everything that happened before and on the current time.
\<close>

record env =
  raises :: "entry list \<Rightarrow> rat \<Rightarrow> call \<Rightarrow> exn option"
  answer :: "entry list \<Rightarrow> rat \<Rightarrow> call \<Rightarrow> string"
  resources :: "entry list \<Rightarrow> rat \<Rightarrow> string list"

text \<open>
  \<open>instruments\<close> is \<^verbatim>\<open>self.instruments\<close>, a Python dict: an association list in
  insertion order. \<open>trace\<close> is the chronological record of the transport calls made,
  \<open>clock\<close> is the time in seconds as \<^verbatim>\<open>time.time()\<close> reads it; it advances by
  \<^verbatim>\<open>time.sleep\<close> only.
\<close>

record state =
  instruments :: "(string \<times> handle) list"
  trace :: "entry list"
  clock :: rat
  next_handle :: handle

section \<open>Statements that may raise\<close>

type_synonym 'a prog = "state \<Rightarrow> (exn + 'a) \<times> state"

definition ret :: "'a \<Rightarrow> 'a prog" where
  "ret x s = (Inr x, s)"

definition bnd :: "'a prog \<Rightarrow> ('a \<Rightarrow> 'b prog) \<Rightarrow> 'b prog" where
  "bnd m f s = (case m s of (Inl e, s') \<Rightarrow> (Inl e, s') | (Inr x, s') \<Rightarrow> f x s')"

text \<open>\<^verbatim>\<open>try: m  except Exception as e: h\<close>\<close>

definition try_except :: "'a prog \<Rightarrow> (exn \<Rightarrow> 'a prog) \<Rightarrow> 'a prog" where
  "try_except m h s = (case m s of (Inl e, s') \<Rightarrow> h e s' | (Inr x, s') \<Rightarrow> (Inr x, s'))"

subsection \<open>Transport calls\<close>

definition record_call :: "call \<Rightarrow> outcome \<Rightarrow> state \<Rightarrow> state" where
  "record_call c out s = s\<lparr>trace := trace s @ [(clock s, c, out)]\<rparr>"

text \<open>A call that returns nothing.\<close>

definition invoke :: "env \<Rightarrow> call \<Rightarrow> unit prog" where
  "invoke E c s =
     (case raises E (trace s) (clock s) c of
        Some e \<Rightarrow> (Inl e, record_call c (Raised e) s)
      | None \<Rightarrow> (Inr (), record_call c Done s))"

text \<open>A call that returns a string.\<close>

definition invoke_str :: "env \<Rightarrow> call \<Rightarrow> string prog" where
  "invoke_str E c s =
     (case raises E (trace s) (clock s) c of
        Some e \<Rightarrow> (Inl e, record_call c (Raised e) s)
      | None \<Rightarrow> (let r = answer E (trace s) (clock s) c in (Inr r, record_call c (Str r) s)))"

text \<open>\<^verbatim>\<open>self.rm.list_resources()\<close>\<close>

definition rm_list_resources :: "env \<Rightarrow> string list prog" where
  "rm_list_resources E s =
     (case raises E (trace s) (clock s) ListResources of
        Some e \<Rightarrow> (Inl e, record_call ListResources (Raised e) s)
      | None \<Rightarrow> (let r = resources E (trace s) (clock s)
                 in (Inr r, record_call ListResources (Strs r) s)))"

text \<open>\<^verbatim>\<open>self.rm.open_resource(resource_name)\<close>: a new handle object on success.\<close>

definition rm_open_resource :: "env \<Rightarrow> string \<Rightarrow> handle prog" where
  "rm_open_resource E resource_name s =
     (case raises E (trace s) (clock s) (OpenResource resource_name) of
        Some e \<Rightarrow> (Inl e, record_call (OpenResource resource_name) (Raised e) s)
      | None \<Rightarrow>
          (Inr (next_handle s),
           (record_call (OpenResource resource_name) (Opened (next_handle s)) s)
             \<lparr>next_handle := Suc (next_handle s)\<rparr>))"

subsection \<open>The clock\<close>

text \<open>\<^verbatim>\<open>time.sleep(d)\<close> raises \<^verbatim>\<open>ValueError\<close> on a negative length.\<close>

definition sleep :: "rat \<Rightarrow> unit prog" where
  "sleep d s =
     (if d < 0 then (Inl (ValueError ''sleep length must be non-negative''), s)
      else (Inr (), s\<lparr>clock := clock s + d\<rparr>))"

subsection \<open>The dict \<^verbatim>\<open>self.instruments\<close>\<close>

text \<open>\<^verbatim>\<open>identifier in self.instruments\<close>\<close>

definition contains :: "state \<Rightarrow> string \<Rightarrow> bool" where
  "contains s k = (map_of (instruments s) k \<noteq> None)"

text \<open>\<^verbatim>\<open>self.instruments[k]\<close>\<close>

definition get_item :: "string \<Rightarrow> handle prog" where
  "get_item k s =
     (case map_of (instruments s) k of None \<Rightarrow> (Inl (KeyError k), s) | Some h \<Rightarrow> (Inr h, s))"

text \<open>\<^verbatim>\<open>self.instruments[k] = h\<close>: replaces in place, or appends a new key.\<close>

definition set_item :: "string \<Rightarrow> handle \<Rightarrow> unit prog" where
  "set_item k h s = (Inr (), s\<lparr>instruments := AList.update k h (instruments s)\<rparr>)"

text \<open>\<^verbatim>\<open>del self.instruments[k]\<close>\<close>

definition del_item :: "string \<Rightarrow> unit prog" where
  "del_item k s =
     (case map_of (instruments s) k of
        None \<Rightarrow> (Inl (KeyError k), s)
      | Some h \<Rightarrow> (Inr (), s\<lparr>instruments := AList.delete k (instruments s)\<rparr>))"

subsection \<open>Strings\<close>

text \<open>
  \<^verbatim>\<open>str.strip()\<close> removes leading and trailing whitespace; \<open>is_space\<close> lists the
  code points below 256 for which \<^verbatim>\<open>str.isspace\<close> holds.
\<close>

definition is_space :: "char \<Rightarrow> bool" where
  "is_space c = ((of_char c :: nat) \<in> {9, 10, 11, 12, 13, 28, 29, 30, 31, 32, 133, 160})"

definition strip :: "string \<Rightarrow> string" where
  "strip x = rev (dropWhile is_space (rev (dropWhile is_space x)))"

text \<open>Truth value of an optional string: \<^verbatim>\<open>None\<close> and \<^verbatim>\<open>''\<close> are false.\<close>

definition truthy :: "string option \<Rightarrow> bool" where
  "truthy a = (case a of None \<Rightarrow> False | Some v \<Rightarrow> v \<noteq> [])"

section \<open>class GPIBController\<close>

text \<open>
  \<^verbatim>\<open>__init__\<close>: the only method that re-raises. \<open>t0\<close> is the time of construction.
  The calls to \<^verbatim>\<open>logger\<close> change nothing the module reads and are left out throughout.
\<close>

definition init :: "env \<Rightarrow> string option \<Rightarrow> rat \<Rightarrow> exn + state" where
  "init E visa_library t0 =
     (let c = NewResourceManager (if truthy visa_library then visa_library else None)
      in case raises E [] t0 c of
           Some e \<Rightarrow> Inl e
         | None \<Rightarrow>
             Inr \<lparr>instruments = [], trace = [(t0, c, Done)], clock = t0, next_handle = 0\<rparr>)"

definition list_resources :: "env \<Rightarrow> string list prog" where
  "list_resources E =
     try_except (bnd (rm_list_resources E) (\<lambda>resources. ret resources)) (\<lambda>e. ret [])"

definition connect_instrument :: "env \<Rightarrow> string \<Rightarrow> string option \<Rightarrow> bool prog" where
  "connect_instrument E resource_name alias =
     try_except
       (bnd (rm_open_resource E resource_name) (\<lambda>instrument.
        bnd (invoke E (SetTimeout instrument 10000)) (\<lambda>_.
        bnd (invoke E (SetWriteTermination instrument [CHR 0x0A])) (\<lambda>_.
        bnd (invoke E (SetReadTermination instrument [CHR 0x0A])) (\<lambda>_.
        let key = (if truthy alias then the alias else resource_name) in
        bnd (set_item key instrument) (\<lambda>_.
        ret True))))))
       (\<lambda>e. ret False)"

definition disconnect_instrument :: "env \<Rightarrow> string \<Rightarrow> bool prog" where
  "disconnect_instrument E identifier =
     try_except
       (\<lambda>s. if contains s identifier then
              bnd (get_item identifier) (\<lambda>h.
              bnd (invoke E (Close h)) (\<lambda>_.
              bnd (del_item identifier) (\<lambda>_.
              ret True))) s
            else ret False s)
       (\<lambda>e. ret False)"

definition send_command :: "env \<Rightarrow> string \<Rightarrow> string \<Rightarrow> rat \<Rightarrow> bool prog" where
  "send_command E identifier command delay =
     try_except
       (\<lambda>s. if \<not> contains s identifier then ret False s
            else
              bnd (get_item identifier) (\<lambda>h.
              bnd (invoke E (Write h command)) (\<lambda>_.
              bnd (sleep delay) (\<lambda>_.
              ret True))) s)
       (\<lambda>e. ret False)"

definition query_command :: "env \<Rightarrow> string \<Rightarrow> string \<Rightarrow> rat \<Rightarrow> string option prog" where
  "query_command E identifier command delay =
     try_except
       (\<lambda>s. if \<not> contains s identifier then ret None s
            else
              bnd (get_item identifier) (\<lambda>h.
              bnd (invoke_str E (Query h command)) (\<lambda>response.
              bnd (sleep delay) (\<lambda>_.
              ret (Some (strip response))))) s)
       (\<lambda>e. ret None)"

definition read_response :: "env \<Rightarrow> string \<Rightarrow> string option prog" where
  "read_response E identifier =
     try_except
       (\<lambda>s. if \<not> contains s identifier then ret None s
            else
              bnd (get_item identifier) (\<lambda>h.
              bnd (invoke_str E (Read h)) (\<lambda>response.
              ret (Some (strip response)))) s)
       (\<lambda>e. ret None)"

definition get_identification :: "env \<Rightarrow> string \<Rightarrow> string option prog" where
  "get_identification E identifier = query_command E identifier ''*IDN?'' (1 / 10)"

definition reset_instrument :: "env \<Rightarrow> string \<Rightarrow> bool prog" where
  "reset_instrument E identifier = send_command E identifier ''*RST'' 2"

definition clear_instrument :: "env \<Rightarrow> string \<Rightarrow> bool prog" where
  "clear_instrument E identifier = send_command E identifier ''*CLS'' (1 / 10)"

text \<open>
  The \<^verbatim>\<open>while\<close> loop of \<^verbatim>\<open>wait_for_completion\<close>. Every round that does not return
  sleeps 0.1 s, so the elapsed time reaches any timeout.
\<close>

function wait_loop :: "env \<Rightarrow> string \<Rightarrow> rat \<Rightarrow> rat \<Rightarrow> bool prog" where
  "wait_loop E identifier start_time timeout s =
     (if clock s - start_time < timeout then
        (case query_command E identifier ''*OPC?'' (1 / 10) s of
           (Inl e, s') \<Rightarrow> (Inl e, s')
         | (Inr response, s') \<Rightarrow>
             if response = Some ''1'' then (Inr True, s')
             else (case sleep (1 / 10) s' of
                     (Inl e, s'') \<Rightarrow> (Inl e, s'')
                   | (Inr _, s'') \<Rightarrow> wait_loop E identifier start_time timeout s''))
      else (Inr False, s))"
  by pat_completeness auto
termination
  apply (relation "measure (\<lambda>(E, identifier, start_time, timeout, s).
                    nat \<lceil>(timeout + start_time - clock s) * 10\<rceil>)")
  subgoal by simp
  subgoal premises prems for E ident start_time timeout s x s' response y s'' u
  proof -
    have running: "clock s - start_time < timeout"
      by (rule prems(1))
    have polled: "(Inr response, s') = query_command E ident ''*OPC?'' (1 / 10) s"
      using prems(2) prems(3) by simp
    have slept: "(Inr u, s'') = sleep (1 / 10) s'"
      using prems(5) prems(6) by simp
    have mono: "clock s \<le> clock s'"
      using polled
      by (auto simp: query_command_def try_except_def bnd_def ret_def get_item_def
          invoke_str_def record_call_def sleep_def Let_def
          split: if_splits option.splits)
    have step: "clock s'' = clock s' + 1 / 10"
      using slept by (auto simp: sleep_def split: if_splits)
    have pos: "0 < (timeout + start_time - clock s) * 10"
      using running by simp
    have "(timeout + start_time - clock s'') * 10 \<le> (timeout + start_time - clock s) * 10 - 1"
      using mono step by simp
    then have "\<lceil>(timeout + start_time - clock s'') * 10\<rceil>
        \<le> \<lceil>(timeout + start_time - clock s) * 10 - 1\<rceil>"
      by (rule ceiling_mono)
    also have "\<dots> = \<lceil>(timeout + start_time - clock s) * 10\<rceil> - 1"
      by simp
    finally have less: "\<lceil>(timeout + start_time - clock s'') * 10\<rceil>
        < \<lceil>(timeout + start_time - clock s) * 10\<rceil>"
      by simp
    have "0 < \<lceil>(timeout + start_time - clock s) * 10\<rceil>"
      using pos by simp
    with less show ?thesis
      by simp
  qed
  done

declare wait_loop.simps [simp del]

definition wait_for_completion :: "env \<Rightarrow> string \<Rightarrow> rat \<Rightarrow> bool prog" where
  "wait_for_completion E identifier timeout s = wait_loop E identifier (clock s) timeout s"

text \<open>The \<^verbatim>\<open>for\<close> loop of \<^verbatim>\<open>close_all_connections\<close> over the list of keys.\<close>

fun disconnect_each :: "env \<Rightarrow> string list \<Rightarrow> unit prog" where
  "disconnect_each E [] s = (Inr (), s)"
| "disconnect_each E (identifier # rest) s =
     (case disconnect_instrument E identifier s of
        (Inl e, s') \<Rightarrow> (Inl e, s')
      | (Inr _, s') \<Rightarrow> disconnect_each E rest s')"

definition close_all_connections :: "env \<Rightarrow> unit prog" where
  "close_all_connections E =
     bnd (\<lambda>s. disconnect_each E (map fst (instruments s)) s) (\<lambda>_.
     try_except (invoke E RmClose) (\<lambda>e. ret ()))"

section \<open>Observing a run\<close>

text \<open>The calls of a list of trace entries, and the entries recorded between two states.\<close>

definition calls :: "entry list \<Rightarrow> call list" where
  "calls es = map (\<lambda>(t, c, out). c) es"

definition since :: "state \<Rightarrow> state \<Rightarrow> entry list" where
  "since s s' = drop (length (trace s)) (trace s')"

section \<open>Callers and reachable states\<close>

text \<open>
  A caller issues calls of the public methods one after the other; \<open>perform\<close> is one
  such call with its result dropped.
\<close>

datatype request =
    DoListResources
  | DoConnect string "string option"
  | DoDisconnect string
  | DoSend string string rat
  | DoQuery string string rat
  | DoRead string
  | DoIdentify string
  | DoReset string
  | DoClear string
  | DoWait string rat
  | DoCloseAll

fun perform :: "env \<Rightarrow> request \<Rightarrow> state \<Rightarrow> state" where
  "perform E DoListResources s = snd (list_resources E s)"
| "perform E (DoConnect resource_name alias) s = snd (connect_instrument E resource_name alias s)"
| "perform E (DoDisconnect identifier) s = snd (disconnect_instrument E identifier s)"
| "perform E (DoSend identifier command delay) s = snd (send_command E identifier command delay s)"
| "perform E (DoQuery identifier command delay) s =
     snd (query_command E identifier command delay s)"
| "perform E (DoRead identifier) s = snd (read_response E identifier s)"
| "perform E (DoIdentify identifier) s = snd (get_identification E identifier s)"
| "perform E (DoReset identifier) s = snd (reset_instrument E identifier s)"
| "perform E (DoClear identifier) s = snd (clear_instrument E identifier s)"
| "perform E (DoWait identifier timeout) s = snd (wait_for_completion E identifier timeout s)"
| "perform E DoCloseAll s = snd (close_all_connections E s)"

fun perform_all :: "env \<Rightarrow> request list \<Rightarrow> state \<Rightarrow> state" where
  "perform_all E [] s = s"
| "perform_all E (r # rs) s = perform_all E rs (perform E r s)"

text \<open>
  What holds of the registry in every state a caller can reach: the keys of the dict are
  distinct, no handle is registered twice, and every registered handle was opened before.
\<close>

definition handles :: "state \<Rightarrow> handle set" where
  "handles s = snd ` set (instruments s)"

definition registry_ok :: "state \<Rightarrow> bool" where
  "registry_ok s \<longleftrightarrow>
     distinct (map fst (instruments s)) \<and> distinct (map snd (instruments s))
     \<and> (\<forall>h \<in> set (map snd (instruments s)). h < next_handle s)"

text \<open>An operation that leaves the registry alone and closes nothing.\<close>

definition registry_kept :: "state \<Rightarrow> state \<Rightarrow> bool" where
  "registry_kept s s' \<longleftrightarrow>
     instruments s' = instruments s \<and> next_handle s' = next_handle s
     \<and> (\<exists>es. trace s' = trace s @ es \<and> (\<forall>h. Close h \<notin> set (calls es)))"

text \<open>
  What one call of a public method may do: it adds entries to the trace, closes only
  handles that were registered, and registers only handles that were registered or are
  new; and it keeps the registry well formed.
\<close>

definition step_frame :: "state \<Rightarrow> state \<Rightarrow> bool" where
  "step_frame s s' \<longleftrightarrow>
     (\<exists>es. trace s' = trace s @ es \<and> (\<forall>h. Close h \<in> set (calls es) \<longrightarrow> h \<in> handles s))
     \<and> next_handle s \<le> next_handle s'
     \<and> (\<forall>h \<in> handles s'. h \<in> handles s \<or> next_handle s \<le> h)
     \<and> (registry_ok s \<longrightarrow> registry_ok s')"

text \<open>Whether a \<^verbatim>\<open>close\<close> of handle \<open>h\<close> that raised is among the entries.\<close>

definition close_raised :: "entry list \<Rightarrow> handle \<Rightarrow> bool" where
  "close_raised es h =
     list_ex (\<lambda>(t, c, out). c = Close h \<and> (case out of Raised e \<Rightarrow> True | _ \<Rightarrow> False)) es"

section \<open>Polling\<close>


definition completed :: "entry \<Rightarrow> bool" where
  "completed e =
     (case e of
        (t, Query h command, Str a) \<Rightarrow> command = ''*OPC?'' \<and> strip a = ''1''
      | _ \<Rightarrow> False)"

section \<open>Test doubles\<close>

text \<open>A transport that never raises and answers every query with \<^verbatim>\<open>"0"\<close>.\<close>

definition stub :: env where
  "stub = \<lparr>raises = (\<lambda>tr t c. None), answer = (\<lambda>tr t c. ''0''),
           resources = (\<lambda>tr t. [''GPIB0::10::INSTR''])\<rparr>"

text \<open>A transport on which every \<^verbatim>\<open>close\<close> of a handle raises.\<close>

definition stuck :: env where
  "stuck = \<lparr>raises = (\<lambda>tr t c. case c of Close h \<Rightarrow> Some (VisaIOError ''VI_ERROR_CLOSING_FAILED'')
                                     | _ \<Rightarrow> None),
            answer = (\<lambda>tr t c. ''0''),
            resources = (\<lambda>tr t. [''GPIB0::10::INSTR''])\<rparr>"

text \<open>A transport that never raises and answers every query with \<^verbatim>\<open>"1"\<close>.\<close>

definition ready :: env where
  "ready = \<lparr>raises = (\<lambda>tr t c. None), answer = (\<lambda>tr t c. ''1''),
            resources = (\<lambda>tr t. [''GPIB0::10::INSTR''])\<rparr>"

text \<open>A transport on which the \<^verbatim>\<open>close\<close> of handle 1 raises, and nothing else does.\<close>

definition flaky :: env where
  "flaky = \<lparr>raises = (\<lambda>tr t c. if c = Close 1 then Some (VisaIOError ''VI_ERROR_CONN_LOST'')
                                  else None),
            answer = (\<lambda>tr t c. ''0''),
            resources = (\<lambda>tr t. [''GPIB0::10::INSTR''])\<rparr>"

text \<open>A transport on which every call raises.\<close>

definition broken :: env where
  "broken = \<lparr>raises = (\<lambda>tr t c. Some (VisaIOError ''VI_ERROR_SYSTEM_ERROR'')),
             answer = (\<lambda>tr t c. []),
             resources = (\<lambda>tr t. [])\<rparr>"

text \<open>A controller with an empty registry, and one holding a session \<^verbatim>\<open>smu\<close>.\<close>

definition idle :: state where
  "idle = \<lparr>instruments = [], trace = [], clock = 0, next_handle = 0\<rparr>"

definition one_session :: state where
  "one_session = \<lparr>instruments = [(''smu'', 0)], trace = [], clock = 0, next_handle = 1\<rparr>"

text \<open>A controller holding three sessions.\<close>

definition three_sessions :: state where
  "three_sessions =
     \<lparr>instruments = [(''smu'', 0), (''dmm'', 1), (''psu'', 2)], trace = [], clock = 0,
      next_handle = 3\<rparr>"

text \<open>
  A controller whose registry has the key \<^verbatim>\<open>""\<close>: the state after
  \<^verbatim>\<open>connect_instrument("")\<close> on a transport that opens that address.
\<close>

definition empty_key_session :: state where
  "empty_key_session = snd (connect_instrument stub [] None idle)"

section \<open>What each operation does\<close>

lemmas prog_defs = ret_def bnd_def try_except_def invoke_def invoke_str_def
  sleep_def contains_def get_item_def set_item_def del_item_def Let_def

lemmas double_defs = stub_def stuck_def ready_def flaky_def broken_def idle_def one_session_def
  three_sessions_def

lemma disconnect_instrument_run:
  "disconnect_instrument E k s =
     (case map_of (instruments s) k of
        None \<Rightarrow> (Inr False, s)
      | Some h \<Rightarrow>
          (case raises E (trace s) (clock s) (Close h) of
             Some e \<Rightarrow> (Inr False, record_call (Close h) (Raised e) s)
           | None \<Rightarrow> (Inr True, (record_call (Close h) Done s)
                                   \<lparr>instruments := AList.delete k (instruments s)\<rparr>)))"
  by (simp add: disconnect_instrument_def prog_defs record_call_def split: option.splits)

lemma send_command_run:
  "send_command E k c d s =
     (case map_of (instruments s) k of
        None \<Rightarrow> (Inr False, s)
      | Some h \<Rightarrow>
          (case raises E (trace s) (clock s) (Write h c) of
             Some e \<Rightarrow> (Inr False, record_call (Write h c) (Raised e) s)
           | None \<Rightarrow>
               if d < 0 then (Inr False, record_call (Write h c) Done s)
               else (Inr True, (record_call (Write h c) Done s)\<lparr>clock := clock s + d\<rparr>)))"
  by (simp add: send_command_def prog_defs record_call_def split: option.splits)

lemma query_command_run:
  "query_command E k c d s =
     (case map_of (instruments s) k of
        None \<Rightarrow> (Inr None, s)
      | Some h \<Rightarrow>
          (case raises E (trace s) (clock s) (Query h c) of
             Some e \<Rightarrow> (Inr None, record_call (Query h c) (Raised e) s)
           | None \<Rightarrow>
               if d < 0
               then (Inr None,
                     record_call (Query h c) (Str (answer E (trace s) (clock s) (Query h c))) s)
               else (Inr (Some (strip (answer E (trace s) (clock s) (Query h c)))),
                     (record_call (Query h c) (Str (answer E (trace s) (clock s) (Query h c))) s)
                       \<lparr>clock := clock s + d\<rparr>)))"
  by (simp add: query_command_def prog_defs record_call_def split: option.splits)

lemma read_response_run:
  "read_response E k s =
     (case map_of (instruments s) k of
        None \<Rightarrow> (Inr None, s)
      | Some h \<Rightarrow>
          (case raises E (trace s) (clock s) (Read h) of
             Some e \<Rightarrow> (Inr None, record_call (Read h) (Raised e) s)
           | None \<Rightarrow>
               (Inr (Some (strip (answer E (trace s) (clock s) (Read h)))),
                record_call (Read h) (Str (answer E (trace s) (clock s) (Read h))) s)))"
  by (simp add: read_response_def prog_defs record_call_def split: option.splits)

lemma connect_instrument_success:
  assumes "connect_instrument E rn alias s = (Inr True, s')"
  shows "s' = s\<lparr>instruments :=
                  AList.update (if truthy alias then the alias else rn) (next_handle s)
                    (instruments s),
                trace := trace s @
                  [(clock s, OpenResource rn, Opened (next_handle s)),
                   (clock s, SetTimeout (next_handle s) 10000, Done),
                   (clock s, SetWriteTermination (next_handle s) [CHR 0x0A], Done),
                   (clock s, SetReadTermination (next_handle s) [CHR 0x0A], Done)],
                next_handle := Suc (next_handle s)\<rparr>"
  using assms
  by (auto simp: connect_instrument_def rm_open_resource_def prog_defs record_call_def
      split: option.splits)

lemma connect_instrument_stub:
  "connect_instrument stub rn alias s =
     (Inr True,
      s\<lparr>instruments :=
          AList.update (if truthy alias then the alias else rn) (next_handle s) (instruments s),
        trace := trace s @
          [(clock s, OpenResource rn, Opened (next_handle s)),
           (clock s, SetTimeout (next_handle s) 10000, Done),
           (clock s, SetWriteTermination (next_handle s) [CHR 0x0A], Done),
           (clock s, SetReadTermination (next_handle s) [CHR 0x0A], Done)],
        next_handle := Suc (next_handle s)\<rparr>)"
  by (simp add: connect_instrument_def rm_open_resource_def prog_defs record_call_def stub_def)

section \<open>The polling loop\<close>

lemma ceiling_step:
  fixes x :: rat
  assumes "0 < x"
  shows "Suc (nat \<lceil>x - 1\<rceil>) = nat \<lceil>x\<rceil>"
proof -
  have c: "0 < \<lceil>x\<rceil>" using assms by simp
  have "Suc (nat (\<lceil>x\<rceil> - 1)) = nat \<lceil>x\<rceil>" using c by linarith
  then show ?thesis by simp
qed

lemma wait_loop_absent:
  assumes "map_of (instruments s) key = None"
  shows "wait_loop E key start timeout s =
           (Inr False, s\<lparr>clock := clock s + of_nat (nat \<lceil>(timeout + start - clock s) * 10\<rceil>) / 10\<rparr>)"
  using assms
proof (induction E key start timeout s rule: wait_loop.induct)
  case (1 E key start timeout s)
  show ?case
  proof (cases "clock s - start < timeout")
    case False
    then have "(timeout + start - clock s) * 10 \<le> 0" by simp
    then have "\<lceil>(timeout + start - clock s) * 10\<rceil> \<le> 0"
      by (simp add: ceiling_le_zero)
    then have "nat \<lceil>(timeout + start - clock s) * 10\<rceil> = 0" by simp
    with False show ?thesis by (subst wait_loop.simps) simp
  next
    case True
    let ?s' = "s\<lparr>clock := clock s + 1 / 10\<rparr>"
    have q: "query_command E key ''*OPC?'' (1 / 10) s = (Inr None, s)"
      using 1(2) by (simp add: query_command_run)
    have sl: "sleep (1 / 10) s = (Inr (), ?s')"
      by (simp add: sleep_def)
    have IH: "wait_loop E key start timeout ?s' =
           (Inr False, ?s'\<lparr>clock := clock ?s' + of_nat (nat \<lceil>(timeout + start - clock ?s') * 10\<rceil>) / 10\<rparr>)"
      using 1(1)[OF True q[symmetric] refl _ sl[symmetric] refl] 1(2) by simp
    have pos: "0 < (timeout + start - clock s) * 10" using True by simp
    have e: "(timeout + start - clock ?s') * 10 = (timeout + start - clock s) * 10 - 1"
      by (simp add: algebra_simps)
    have n: "Suc (nat \<lceil>(timeout + start - clock ?s') * 10\<rceil>) = nat \<lceil>(timeout + start - clock s) * 10\<rceil>"
      unfolding e by (rule ceiling_step[OF pos])
    have "clock ?s' + of_nat (nat \<lceil>(timeout + start - clock ?s') * 10\<rceil>) / 10
        = clock s + of_nat (nat \<lceil>(timeout + start - clock s) * 10\<rceil>) / 10"
      unfolding n[symmetric] by (simp add: field_simps)
    then have "wait_loop E key start timeout ?s' =
         (Inr False, s\<lparr>clock := clock s + of_nat (nat \<lceil>(timeout + start - clock s) * 10\<rceil>) / 10\<rparr>)"
      using IH by simp
    then show ?thesis
      using True q sl by (subst wait_loop.simps) simp
  qed
qed



lemma poll_once:
  "\<exists>r s1 es. query_command E key ''*OPC?'' (1 / 10) s = (Inr r, s1)
      \<and> trace s1 = trace s @ es
      \<and> (r = Some ''1'' \<longleftrightarrow> list_ex completed es)
      \<and> instruments s1 = instruments s \<and> next_handle s1 = next_handle s
      \<and> clock s \<le> clock s1
      \<and> (\<forall>c \<in> set (calls es). \<exists>h. c = Query h ''*OPC?'')"
  by (auto simp: query_command_run record_call_def completed_def calls_def
      split: option.splits)

lemma wait_loop_result:
  "\<exists>b s' es. wait_loop E key start timeout s = (Inr b, s')
      \<and> trace s' = trace s @ es
      \<and> (b \<longleftrightarrow> list_ex completed es)
      \<and> instruments s' = instruments s \<and> next_handle s' = next_handle s
      \<and> clock s \<le> clock s'
      \<and> (\<forall>c \<in> set (calls es). \<exists>h. c = Query h ''*OPC?'')"
proof (induction E key start timeout s rule: wait_loop.induct)
  case (1 E key start timeout s)
  show ?case
  proof (cases "clock s - start < timeout")
    case False
    then have "wait_loop E key start timeout s = (Inr False, s)"
      by (subst wait_loop.simps) simp
    then show ?thesis
      by (intro exI[of _ False] exI[of _ s] exI[of _ "[]"]) (simp add: calls_def)
  next
    case True
    obtain r s1 es1 where q: "query_command E key ''*OPC?'' (1 / 10) s = (Inr r, s1)"
      and t1: "trace s1 = trace s @ es1"
      and c1: "r = Some ''1'' \<longleftrightarrow> list_ex completed es1"
      and f1: "instruments s1 = instruments s" "next_handle s1 = next_handle s"
        "clock s \<le> clock s1"
      and q1: "\<forall>c \<in> set (calls es1). \<exists>h. c = Query h ''*OPC?''"
      using poll_once[of E key s] by blast
    show ?thesis
    proof (cases "r = Some ''1''")
      case fin: True
      have "wait_loop E key start timeout s = (Inr True, s1)"
        using True q fin by (subst wait_loop.simps) simp
      then show ?thesis using t1 c1 f1 q1 fin by auto
    next
      case pending: False
      let ?s2 = "s1\<lparr>clock := clock s1 + 1 / 10\<rparr>"
      have sl: "sleep (1 / 10) s1 = (Inr (), ?s2)"
        by (simp add: sleep_def)
      obtain b s' es where w: "wait_loop E key start timeout ?s2 = (Inr b, s')"
        and t2: "trace s' = trace ?s2 @ es"
        and c2: "b \<longleftrightarrow> list_ex completed es"
        and f2: "instruments s' = instruments ?s2" "next_handle s' = next_handle ?s2"
          "clock ?s2 \<le> clock s'"
        and q2: "\<forall>c \<in> set (calls es). \<exists>h. c = Query h ''*OPC?''"
        using 1[OF True q[symmetric] refl pending sl[symmetric] refl] by blast
      have "wait_loop E key start timeout s = (Inr b, s')"
        using True q pending sl w by (subst wait_loop.simps) simp
      moreover have "trace s' = trace s @ (es1 @ es)"
        using t1 t2 by simp
      moreover have "b \<longleftrightarrow> list_ex completed (es1 @ es)"
        using c1 c2 pending by (auto simp: list_ex_iff)
      moreover have "\<forall>c \<in> set (calls (es1 @ es)). \<exists>h. c = Query h ''*OPC?''"
        using q1 q2 by (auto simp: calls_def)
      moreover have "clock s \<le> clock s'"
        using f1 f2 by simp
      ultimately show ?thesis
        using f1 f2 by (intro exI[of _ b] exI[of _ s'] exI[of _ "es1 @ es"]) simp
    qed
  qed
qed






section \<open>Frames of the operations\<close>

lemma calls_simps:
  "calls [] = []"
  "calls ((t, c, out) # es) = c # calls es"
  "calls (es @ es') = calls es @ calls es'"
  by (simp_all add: calls_def)

lemma list_resources_run:
  "list_resources E s =
     (case raises E (trace s) (clock s) ListResources of
        Some e \<Rightarrow> (Inr [], record_call ListResources (Raised e) s)
      | None \<Rightarrow> (Inr (resources E (trace s) (clock s)),
                 record_call ListResources (Strs (resources E (trace s) (clock s))) s))"
  by (simp add: list_resources_def rm_list_resources_def prog_defs split: option.splits)

lemma registry_kept_refl: "registry_kept s s"
  by (simp add: registry_kept_def calls_simps)

lemma registry_kept_trans: "registry_kept s s1 \<Longrightarrow> registry_kept s1 s2 \<Longrightarrow> registry_kept s s2"
  by (auto simp: registry_kept_def calls_simps)

lemma list_resources_keeps: "registry_kept s (snd (list_resources E s))"
  by (simp add: list_resources_run registry_kept_def record_call_def calls_simps split: option.splits)

lemma send_command_keeps: "registry_kept s (snd (send_command E k c d s))"
  by (simp add: send_command_run registry_kept_def record_call_def calls_simps split: option.splits)

lemma query_command_keeps: "registry_kept s (snd (query_command E k c d s))"
  by (simp add: query_command_run registry_kept_def record_call_def calls_simps split: option.splits)

lemma read_response_keeps: "registry_kept s (snd (read_response E k s))"
  by (simp add: read_response_run registry_kept_def record_call_def calls_simps split: option.splits)

lemma wait_for_completion_keeps: "registry_kept s (snd (wait_for_completion E k timeout s))"
proof -
  obtain b s' es where w: "wait_loop E k (clock s) timeout s = (Inr b, s')"
    and t: "trace s' = trace s @ es"
    and f: "instruments s' = instruments s" "next_handle s' = next_handle s"
    and q: "\<forall>c \<in> set (calls es). \<exists>h. c = Query h ''*OPC?''"
    using wait_loop_result[of E k "clock s" timeout s] by blast
  have "\<forall>h. Close h \<notin> set (calls es)"
    using q by auto
  then show ?thesis
    using w t f by (auto simp: wait_for_completion_def registry_kept_def)
qed

lemma connect_instrument_total:
  "\<exists>b s'. connect_instrument E rn alias s = (Inr b, s')"
  by (auto simp: connect_instrument_def rm_open_resource_def prog_defs split: option.splits)

lemma connect_instrument_frame:
  "\<exists>es. trace (snd (connect_instrument E rn alias s)) = trace s @ es
       \<and> (\<forall>h. Close h \<notin> set (calls es))
       \<and> (instruments (snd (connect_instrument E rn alias s)) = instruments s
              \<and> next_handle s \<le> next_handle (snd (connect_instrument E rn alias s))
          \<or> (instruments (snd (connect_instrument E rn alias s)) =
                AList.update (if truthy alias then the alias else rn) (next_handle s) (instruments s)
              \<and> next_handle (snd (connect_instrument E rn alias s)) = Suc (next_handle s)))"
  by (auto simp: connect_instrument_def rm_open_resource_def prog_defs record_call_def
      calls_simps split: option.splits)

lemma registry_ok_delete:
  assumes "registry_ok s"
    and "instruments s' = AList.delete k (instruments s)"
    and "next_handle s' = next_handle s"
  shows "registry_ok s'"
  using assms
  by (auto simp: registry_ok_def AList.delete_eq distinct_map_filter)

lemma disconnect_instrument_frame:
  "\<exists>b s' es. disconnect_instrument E k s = (Inr b, s')
      \<and> trace s' = trace s @ es
      \<and> (\<forall>c \<in> set (calls es). \<exists>h \<in> handles s. c = Close h)
      \<and> set (instruments s') \<subseteq> set (instruments s)
      \<and> next_handle s' = next_handle s \<and> clock s' = clock s
      \<and> (registry_ok s \<longrightarrow> registry_ok s')"
proof (cases "map_of (instruments s) k")
  case None
  then show ?thesis
    by (auto simp: disconnect_instrument_run calls_simps)
next
  case (Some h)
  then have h: "h \<in> handles s"
    by (auto simp: handles_def dest: map_of_SomeD intro: rev_image_eqI)
  show ?thesis
  proof (cases "raises E (trace s) (clock s) (Close h)")
    case None
    let ?s' = "(record_call (Close h) Done s)\<lparr>instruments := AList.delete k (instruments s)\<rparr>"
    have "registry_ok s \<longrightarrow> registry_ok ?s'"
      by (auto intro: registry_ok_delete[of s _ k] simp: record_call_def)
    moreover have "disconnect_instrument E k s = (Inr True, ?s')"
      using Some None by (simp add: disconnect_instrument_run)
    moreover have "trace ?s' = trace s @ [(clock s, Close h, Done)]"
      by (simp add: record_call_def)
    moreover have "set (instruments ?s') \<subseteq> set (instruments s)"
      by (auto simp: AList.delete_eq)
    ultimately show ?thesis
      using h by (intro exI[of _ True] exI[of _ ?s'] exI[of _ "[(clock s, Close h, Done)]"])
        (simp add: calls_simps record_call_def)
  next
    case (Some e)
    then show ?thesis
      using \<open>map_of (instruments s) k = Some h\<close> h
      by (auto simp: disconnect_instrument_run record_call_def calls_simps registry_ok_def)
  qed
qed

lemma disconnect_each_frame:
  "\<exists>s' es. disconnect_each E ks s = (Inr (), s')
      \<and> trace s' = trace s @ es
      \<and> (\<forall>c \<in> set (calls es). \<exists>h \<in> handles s. c = Close h)
      \<and> set (instruments s') \<subseteq> set (instruments s)
      \<and> next_handle s' = next_handle s \<and> clock s' = clock s
      \<and> (registry_ok s \<longrightarrow> registry_ok s')"
proof (induction ks arbitrary: s)
  case Nil
  show ?case by (simp add: calls_simps)
next
  case (Cons k ks)
  obtain b s1 es1 where d: "disconnect_instrument E k s = (Inr b, s1)"
    and t1: "trace s1 = trace s @ es1"
    and c1: "\<forall>c \<in> set (calls es1). \<exists>h \<in> handles s. c = Close h"
    and i1: "set (instruments s1) \<subseteq> set (instruments s)"
    and f1: "next_handle s1 = next_handle s" "clock s1 = clock s"
    and r1: "registry_ok s \<longrightarrow> registry_ok s1"
    using disconnect_instrument_frame[of E k s] by blast
  obtain s' es where e: "disconnect_each E ks s1 = (Inr (), s')"
    and t2: "trace s' = trace s1 @ es"
    and c2: "\<forall>c \<in> set (calls es). \<exists>h \<in> handles s1. c = Close h"
    and i2: "set (instruments s') \<subseteq> set (instruments s1)"
    and f2: "next_handle s' = next_handle s1" "clock s' = clock s1"
    and r2: "registry_ok s1 \<longrightarrow> registry_ok s'"
    using Cons.IH[of s1] by blast
  have sub: "handles s1 \<subseteq> handles s"
    using i1 by (auto simp: handles_def)
  have "disconnect_each E (k # ks) s = (Inr (), s')"
    using d e by simp
  moreover have "trace s' = trace s @ (es1 @ es)"
    using t1 t2 by simp
  moreover have "\<forall>c \<in> set (calls (es1 @ es)). \<exists>h \<in> handles s. c = Close h"
    using c1 c2 sub by (simp add: calls_simps) blast
  moreover have "set (instruments s') \<subseteq> set (instruments s)"
    using i1 i2 by blast
  ultimately show ?case
    using f1 f2 r1 r2 by (intro exI[of _ s'] exI[of _ "es1 @ es"]) simp
qed

lemma close_all_connections_frame:
  "\<exists>s' es. close_all_connections E s = (Inr (), s')
      \<and> trace s' = trace s @ es
      \<and> (\<forall>h. Close h \<in> set (calls es) \<longrightarrow> h \<in> handles s)
      \<and> set (instruments s') \<subseteq> set (instruments s)
      \<and> next_handle s' = next_handle s
      \<and> (registry_ok s \<longrightarrow> registry_ok s')"
proof -
  obtain s1 es where e: "disconnect_each E (map fst (instruments s)) s = (Inr (), s1)"
    and t: "trace s1 = trace s @ es"
    and c: "\<forall>c \<in> set (calls es). \<exists>h \<in> handles s. c = Close h"
    and i: "set (instruments s1) \<subseteq> set (instruments s)"
    and f: "next_handle s1 = next_handle s"
    and r: "registry_ok s \<longrightarrow> registry_ok s1"
    using disconnect_each_frame[of E "map fst (instruments s)" s] by blast
  show ?thesis
  proof (cases "raises E (trace s1) (clock s1) RmClose")
    case None
    then have "close_all_connections E s = (Inr (), record_call RmClose Done s1)"
      using e by (simp add: close_all_connections_def prog_defs)
    then show ?thesis
      using t c i f r
      by (auto simp: record_call_def calls_simps registry_ok_def)
  next
    case (Some x)
    then have "close_all_connections E s = (Inr (), record_call RmClose (Raised x) s1)"
      using e by (simp add: close_all_connections_def prog_defs)
    then show ?thesis
      using t c i f r
      by (auto simp: record_call_def calls_simps registry_ok_def)
  qed
qed

lemma set_update_subset: "set (AList.update k v al) \<subseteq> insert (k, v) (set al)"
  by (induction al) auto

lemma distinct_snd_update:
  assumes "distinct (map snd al)" and "v \<notin> snd ` set al"
  shows "distinct (map snd (AList.update k v al))"
  using assms
proof (induction al)
  case Nil
  show ?case by simp
next
  case (Cons p ps)
  have "snd p \<notin> snd ` set (AList.update k v ps)"
    using Cons.prems set_update_subset[of k v ps] by auto
  then show ?case
    using Cons by auto
qed

lemma registry_ok_update:
  assumes "registry_ok s"
    and "instruments s' = AList.update k (next_handle s) (instruments s)"
    and "next_handle s' = Suc (next_handle s)"
  shows "registry_ok s'"
proof -
  have fresh: "next_handle s \<notin> snd ` set (instruments s)"
    using assms(1) by (auto simp: registry_ok_def)
  have "distinct (map snd (instruments s'))"
    using assms(1,2) fresh by (simp add: registry_ok_def distinct_snd_update)
  moreover have "distinct (map fst (instruments s'))"
    using assms(1,2) by (simp add: registry_ok_def AList.distinct_update)
  moreover have "\<forall>h \<in> set (map snd (instruments s')). h < next_handle s'"
    using assms set_update_subset[of k "next_handle s" "instruments s"]
    by (auto simp: registry_ok_def less_Suc_eq)
  ultimately show ?thesis
    by (simp add: registry_ok_def)
qed

lemma registry_kept_frame: "registry_kept s s' \<Longrightarrow> step_frame s s'"
  by (auto simp: registry_kept_def step_frame_def handles_def registry_ok_def)

lemma connect_instrument_step: "step_frame s (snd (connect_instrument E rn nick s))"
proof -
  let ?s' = "snd (connect_instrument E rn nick s)"
  let ?k = "if truthy nick then the nick else rn"
  obtain es where t: "trace ?s' = trace s @ es" and c: "\<forall>h. Close h \<notin> set (calls es)"
    and alt: "instruments ?s' = instruments s \<and> next_handle s \<le> next_handle ?s'
          \<or> (instruments ?s' = AList.update ?k (next_handle s) (instruments s)
              \<and> next_handle ?s' = Suc (next_handle s))"
    using connect_instrument_frame[of E rn nick s] by blast
  from alt show ?thesis
  proof
    assume same: "instruments ?s' = instruments s \<and> next_handle s \<le> next_handle ?s'"
    then have "registry_ok s \<longrightarrow> registry_ok ?s'"
      by (auto simp: registry_ok_def)
    then show ?thesis
      using t c same by (auto simp: step_frame_def handles_def)
  next
    assume new: "instruments ?s' = AList.update ?k (next_handle s) (instruments s)
              \<and> next_handle ?s' = Suc (next_handle s)"
    then have "registry_ok s \<longrightarrow> registry_ok ?s'"
      using registry_ok_update[of s ?s' ?k] by blast
    moreover have "\<forall>h \<in> handles ?s'. h \<in> handles s \<or> next_handle s \<le> h"
      using new set_update_subset[of ?k "next_handle s" "instruments s"]
      by (auto simp: handles_def)
    ultimately show ?thesis
      using t c new by (auto simp: step_frame_def)
  qed
qed

lemma disconnect_instrument_step: "step_frame s (snd (disconnect_instrument E k s))"
proof -
  obtain b s' es where d: "disconnect_instrument E k s = (Inr b, s')"
    and t: "trace s' = trace s @ es"
    and c: "\<forall>c \<in> set (calls es). \<exists>h \<in> handles s. c = Close h"
    and i: "set (instruments s') \<subseteq> set (instruments s)"
    and f: "next_handle s' = next_handle s"
    and r: "registry_ok s \<longrightarrow> registry_ok s'"
    using disconnect_instrument_frame[of E k s] by blast
  have "\<forall>h. Close h \<in> set (calls es) \<longrightarrow> h \<in> handles s"
    using c by auto
  then show ?thesis
    using d t i f r by (auto simp: step_frame_def handles_def)
qed

lemma close_all_connections_step: "step_frame s (snd (close_all_connections E s))"
proof -
  obtain s' es where d: "close_all_connections E s = (Inr (), s')"
    and t: "trace s' = trace s @ es"
    and c: "\<forall>h. Close h \<in> set (calls es) \<longrightarrow> h \<in> handles s"
    and i: "set (instruments s') \<subseteq> set (instruments s)"
    and f: "next_handle s' = next_handle s"
    and r: "registry_ok s \<longrightarrow> registry_ok s'"
    using close_all_connections_frame[of E s] by blast
  show ?thesis
    using d t c i f r by (auto simp: step_frame_def handles_def)
qed

lemma perform_step: "step_frame s (perform E r s)"
proof (cases r)
  case (DoConnect rn nick)
  then show ?thesis by (simp add: connect_instrument_step)
next
  case (DoDisconnect k)
  then show ?thesis by (simp add: disconnect_instrument_step)
next
  case DoCloseAll
  then show ?thesis by (simp add: close_all_connections_step)
qed (simp_all add: registry_kept_frame list_resources_keeps send_command_keeps
    query_command_keeps read_response_keeps wait_for_completion_keeps
    get_identification_def reset_instrument_def clear_instrument_def)

lemma perform_all_registry_ok: "registry_ok s \<Longrightarrow> registry_ok (perform_all E rs s)"
proof (induction rs arbitrary: s)
  case Nil
  then show ?case by simp
next
  case (Cons r rs)
  have "registry_ok (perform E r s)"
    using perform_step[of s E r] Cons.prems by (simp add: step_frame_def)
  then show ?case
    using Cons.IH by simp
qed

lemma init_registry_ok: "init E visa_library t0 = Inr s \<Longrightarrow> registry_ok s"
  by (auto simp: init_def registry_ok_def Let_def split: option.splits)

lemma perform_all_never_closes:
  assumes "old \<notin> handles s" and "old < next_handle s"
  shows "\<exists>es. trace (perform_all E rs s) = trace s @ es \<and> Close old \<notin> set (calls es)"
  using assms
proof (induction rs arbitrary: s)
  case Nil
  show ?case by (simp add: calls_simps)
next
  case (Cons r rs)
  let ?s1 = "perform E r s"
  note st = perform_step[of s E r, unfolded step_frame_def]
  obtain es1 where t1: "trace ?s1 = trace s @ es1"
    and c1: "\<forall>h. Close h \<in> set (calls es1) \<longrightarrow> h \<in> handles s"
    using st by blast
  have "old \<notin> handles ?s1"
    using st Cons.prems by auto
  moreover have "old < next_handle ?s1"
    using st Cons.prems by auto
  ultimately obtain es where t2: "trace (perform_all E rs ?s1) = trace ?s1 @ es"
    and c2: "Close old \<notin> set (calls es)"
    using Cons.IH[of ?s1] by blast
  have "trace (perform_all E (r # rs) s) = trace s @ (es1 @ es)"
    using t1 t2 by simp
  moreover have "Close old \<notin> set (calls (es1 @ es))"
    using c1 c2 Cons.prems(1) by (auto simp: calls_simps)
  ultimately show ?case by blast
qed

lemma replaced_handle_gone:
  assumes "distinct (map snd al)" and "map_of al k = Some old" and "new \<noteq> old"
  shows "old \<notin> snd ` set (AList.update k new al)"
  using assms
proof (induction al)
  case Nil
  then show ?case by simp
next
  case (Cons p ps)
  show ?case
  proof (cases "fst p = k")
    case True
    then have "snd p = old" using Cons.prems(2) by (cases p) simp
    then show ?thesis
      using True Cons.prems by (cases p) (auto simp: image_iff)
  next
    case False
    then have "map_of ps k = Some old" using Cons.prems(2) by (cases p) auto
    then have "old \<notin> snd ` set (AList.update k new ps)"
      using Cons by simp
    moreover have "snd p \<noteq> old"
      using \<open>map_of ps k = Some old\<close> Cons.prems(1)
      by (auto dest!: map_of_SomeD simp: image_iff)
    ultimately show ?thesis
      using False by (cases p) auto
  qed
qed

section \<open>Closing all connections\<close>

lemma close_raised_simps:
  "close_raised [] h = False"
  "close_raised ((t, c, out) # es) h =
     ((c = Close h \<and> (case out of Raised e \<Rightarrow> True | _ \<Rightarrow> False)) \<or> close_raised es h)"
  "close_raised (es @ es') h = (close_raised es h \<or> close_raised es' h)"
  by (auto simp: close_raised_def list_ex_iff)

lemma close_raised_calls: "close_raised es h \<Longrightarrow> Close h \<in> set (calls es)"
  by (force simp: close_raised_def list_ex_iff calls_def)

lemma delete_middle:
  assumes "k \<notin> fst ` set pre" and "k \<notin> fst ` set ps"
  shows "AList.delete k (pre @ (k, h) # ps) = pre @ ps"
proof -
  have "AList.delete k (pre @ (k, h) # ps) = AList.delete k pre @ AList.delete k ps"
    by (simp add: AList.delete_eq)
  then show ?thesis
    using assms by (simp add: AList.delete_id)
qed

lemma map_of_middle:
  assumes "k \<notin> fst ` set pre"
  shows "map_of (pre @ (k, h) # ps) k = Some h"
  using assms by (induction pre) auto

lemma disconnect_each_run:
  assumes "instruments s = pre @ ps"
    and "distinct (map fst (pre @ ps))"
    and "distinct (map snd ps)"
  shows "\<exists>s' es. disconnect_each E (map fst ps) s = (Inr (), s')
      \<and> trace s' = trace s @ es
      \<and> calls es = map (\<lambda>(k, h). Close h) ps
      \<and> instruments s' = pre @ filter (\<lambda>(k, h). close_raised es h) ps"
  using assms
proof (induction ps arbitrary: s pre)
  case Nil
  show ?case using Nil by (simp add: calls_simps)
next
  case (Cons p ps)
  obtain k h where p: "p = (k, h)" by (cases p)
  have kpre: "k \<notin> fst ` set pre" and kps: "k \<notin> fst ` set ps"
    using Cons.prems(2) by (auto simp: p)
  have hps: "h \<notin> snd ` set ps"
    using Cons.prems(3) by (auto simp: p)
  have look: "map_of (instruments s) k = Some h"
    unfolding Cons.prems(1) p by (rule map_of_middle[OF kpre])
  show ?case
  proof (cases "raises E (trace s) (clock s) (Close h)")
    case None
    let ?e = "(clock s, Close h, Done)"
    let ?s1 = "(record_call (Close h) Done s)\<lparr>instruments := pre @ ps\<rparr>"
    have d: "disconnect_instrument E k s = (Inr True, ?s1)"
      using look None Cons.prems(1) kpre kps
      by (simp add: disconnect_instrument_run p delete_middle)
    have "instruments ?s1 = pre @ ps" by simp
    moreover have "distinct (map fst (pre @ ps))" using Cons.prems(2) by (simp add: p)
    moreover have "distinct (map snd ps)" using Cons.prems(3) by simp
    ultimately obtain s' es where e: "disconnect_each E (map fst ps) ?s1 = (Inr (), s')"
      and t: "trace s' = trace ?s1 @ es"
      and c: "calls es = map (\<lambda>(k, h). Close h) ps"
      and i: "instruments s' = pre @ filter (\<lambda>(k, h). close_raised es h) ps"
      using Cons.IH[of ?s1 pre] by blast
    have nothere: "\<not> close_raised es h"
      using close_raised_calls[of es h] c hps by (force simp: image_iff)
    have "disconnect_each E (map fst (p # ps)) s = (Inr (), s')"
      using d e by (simp add: p)
    moreover have "trace s' = trace s @ (?e # es)"
      using t by (simp add: record_call_def)
    moreover have "calls (?e # es) = map (\<lambda>(k, h). Close h) (p # ps)"
      using c by (simp add: calls_simps p)
    moreover have "instruments s' = pre @ filter (\<lambda>(k, h). close_raised (?e # es) h) (p # ps)"
      using i nothere by (simp add: p close_raised_simps)
    ultimately show ?thesis by blast
  next
    case (Some x)
    let ?e = "(clock s, Close h, Raised x)"
    let ?s1 = "record_call (Close h) (Raised x) s"
    have d: "disconnect_instrument E k s = (Inr False, ?s1)"
      using look Some by (simp add: disconnect_instrument_run)
    have "instruments ?s1 = (pre @ [p]) @ ps"
      using Cons.prems(1) by (simp add: record_call_def)
    moreover have "distinct (map fst ((pre @ [p]) @ ps))" using Cons.prems(2) by simp
    moreover have "distinct (map snd ps)" using Cons.prems(3) by simp
    ultimately obtain s' es where e: "disconnect_each E (map fst ps) ?s1 = (Inr (), s')"
      and t: "trace s' = trace ?s1 @ es"
      and c: "calls es = map (\<lambda>(k, h). Close h) ps"
      and i: "instruments s' = (pre @ [p]) @ filter (\<lambda>(k, h). close_raised es h) ps"
      using Cons.IH[of ?s1 "pre @ [p]"] by blast
    have others: "filter (\<lambda>(k, h). close_raised (?e # es) h) ps
        = filter (\<lambda>(k, h). close_raised es h) ps"
      using hps by (intro filter_cong) (auto simp: close_raised_simps image_iff)
    have "disconnect_each E (map fst (p # ps)) s = (Inr (), s')"
      using d e by (simp add: p)
    moreover have "trace s' = trace s @ (?e # es)"
      using t by (simp add: record_call_def)
    moreover have "calls (?e # es) = map (\<lambda>(k, h). Close h) (p # ps)"
      using c by (simp add: calls_simps p)
    moreover have "instruments s' = pre @ filter (\<lambda>(k, h). close_raised (?e # es) h) (p # ps)"
      using i others by (simp add: p close_raised_simps)
    ultimately show ?thesis by blast
  qed
qed

lemma count_list_distinct:
  "distinct xs \<Longrightarrow> x \<in> set xs \<Longrightarrow> count_list xs x = 1"
  by (induction xs) (auto simp: count_list_0_iff)

lemma count_closes:
  "count_list (map (\<lambda>(k, h). Close h) ps) (Close h) = count_list (map snd ps) h"
  by (induction ps) auto

lemma count_closes_rm: "count_list (map (\<lambda>(k, h). Close h) ps) RmClose = 0"
  by (induction ps) auto

lemma close_all_connections_run:
  assumes "distinct (map fst (instruments s))" and "distinct (map snd (instruments s))"
  shows "\<exists>s' es out. close_all_connections E s = (Inr (), s')
      \<and> trace s' = trace s @ es @ [(clock s', RmClose, out)]
      \<and> calls es = map (\<lambda>(k, h). Close h) (instruments s)
      \<and> instruments s' = filter (\<lambda>(k, h). close_raised es h) (instruments s)"
proof -
  obtain s1 es where e: "disconnect_each E (map fst (instruments s)) s = (Inr (), s1)"
    and t: "trace s1 = trace s @ es"
    and c: "calls es = map (\<lambda>(k, h). Close h) (instruments s)"
    and i: "instruments s1 = filter (\<lambda>(k, h). close_raised es h) (instruments s)"
    using disconnect_each_run[of s "[]" "instruments s" E] assms by auto
  show ?thesis
  proof (cases "raises E (trace s1) (clock s1) RmClose")
    case None
    then have "close_all_connections E s = (Inr (), record_call RmClose Done s1)"
      using e by (simp add: close_all_connections_def prog_defs)
    then show ?thesis
      using t c i by (auto simp: record_call_def)
  next
    case (Some x)
    then have "close_all_connections E s = (Inr (), record_call RmClose (Raised x) s1)"
      using e by (simp add: close_all_connections_def prog_defs)
    then show ?thesis
      using t c i by (auto simp: record_call_def)
  qed
qed

lemma close_all_flaky:
  "close_all_connections flaky three_sessions =
     (Inr (),
      \<lparr>instruments = [(''dmm'', 1)],
       trace = [(0, Close 0, Done), (0, Close 1, Raised (VisaIOError ''VI_ERROR_CONN_LOST'')),
                (0, Close 2, Done), (0, RmClose, Done)],
       clock = 0, next_handle = 3\<rparr>)"
  by (simp add: close_all_connections_def disconnect_instrument_run record_call_def prog_defs
      flaky_def three_sessions_def)

lemma close_all_stub:
  "close_all_connections stub three_sessions =
     (Inr (),
      \<lparr>instruments = [],
       trace = [(0, Close 0, Done), (0, Close 1, Done), (0, Close 2, Done), (0, RmClose, Done)],
       clock = 0, next_handle = 3\<rparr>)"
  by (simp add: close_all_connections_def disconnect_instrument_run record_call_def prog_defs
      stub_def three_sessions_def)

lemma disconnect_each_total: "\<not> isl (fst (disconnect_each E ks s))"
  using disconnect_each_frame[of E ks s] by auto

section \<open>The claims\<close>

text \<open>
  C3. For a key that is not in the registry, \<^verbatim>\<open>send_command\<close> and
  \<^verbatim>\<open>disconnect_instrument\<close> return \<^verbatim>\<open>False\<close>, \<^verbatim>\<open>query_command\<close> and
  \<^verbatim>\<open>read_response\<close> return \<^verbatim>\<open>None\<close>, and the state is the one before the call: no
  entry is added to the trace, so no write, query, read or close reached any handle.
\<close>

theorem absent_key_sentinels:
  assumes "map_of (instruments s) key = None"
  shows "send_command E key command delay s = (Inr False, s)
       \<and> disconnect_instrument E key s = (Inr False, s)
       \<and> query_command E key command delay s = (Inr None, s)
       \<and> read_response E key s = (Inr None, s)"
  using assms
  by (simp add: send_command_run disconnect_instrument_run query_command_run read_response_run)

theorem absent_key_sentinels_witness:
  "map_of (instruments one_session) ''dmm'' = None
 \<and> send_command stuck ''dmm'' ''*RST'' 2 one_session = (Inr False, one_session)
 \<and> disconnect_instrument stuck ''dmm'' one_session = (Inr False, one_session)
 \<and> query_command stuck ''dmm'' ''*RST'' 2 one_session = (Inr None, one_session)
 \<and> read_response stuck ''dmm'' one_session = (Inr None, one_session)"
  using absent_key_sentinels [of one_session "''dmm''" stuck "''*RST''" 2]
  by (simp add: one_session_def)

text \<open>
  C7. \<^verbatim>\<open>disconnect_instrument(key)\<close>: with the key absent it returns \<^verbatim>\<open>False\<close>; with
  the key present and a \<^verbatim>\<open>close\<close> that returns, the handle is closed, the entry is
  removed and the result is \<^verbatim>\<open>True\<close>; with a \<^verbatim>\<open>close\<close> that raises, the result is
  \<^verbatim>\<open>False\<close> and the registry is the one before the call.
\<close>

theorem disconnect_instrument_cases:
  "(map_of (instruments s) key = None \<longrightarrow> disconnect_instrument E key s = (Inr False, s))
 \<and> (map_of (instruments s) key = Some h \<and> raises E (trace s) (clock s) (Close h) = None \<longrightarrow>
      disconnect_instrument E key s =
        (Inr True, s\<lparr>instruments := AList.delete key (instruments s),
                      trace := trace s @ [(clock s, Close h, Done)]\<rparr>)
      \<and> map_of (instruments (snd (disconnect_instrument E key s))) key = None)
 \<and> (map_of (instruments s) key = Some h \<and> raises E (trace s) (clock s) (Close h) = Some e \<longrightarrow>
      disconnect_instrument E key s =
        (Inr False, s\<lparr>trace := trace s @ [(clock s, Close h, Raised e)]\<rparr>)
      \<and> instruments (snd (disconnect_instrument E key s)) = instruments s)"
  by (simp add: disconnect_instrument_run record_call_def AList.delete_conv')

theorem disconnect_instrument_cases_witness:
  "map_of (instruments one_session) ''dmm'' = None
 \<and> disconnect_instrument stub ''dmm'' one_session = (Inr False, one_session)
 \<and> map_of (instruments one_session) ''smu'' = Some 0
 \<and> raises stub (trace one_session) (clock one_session) (Close 0) = None
 \<and> disconnect_instrument stub ''smu'' one_session =
      (Inr True, \<lparr>instruments = [], trace = [(0, Close 0, Done)], clock = 0, next_handle = 1\<rparr>)
 \<and> raises stuck (trace one_session) (clock one_session) (Close 0)
      = Some (VisaIOError ''VI_ERROR_CLOSING_FAILED'')
 \<and> disconnect_instrument stuck ''smu'' one_session =
      (Inr False,
       \<lparr>instruments = [(''smu'', 0)],
        trace = [(0, Close 0, Raised (VisaIOError ''VI_ERROR_CLOSING_FAILED''))],
        clock = 0, next_handle = 1\<rparr>)"
  using disconnect_instrument_cases [of one_session "''dmm''" stub 0
      "VisaIOError ''VI_ERROR_CLOSING_FAILED''"]
    disconnect_instrument_cases [of one_session "''smu''" stub 0
      "VisaIOError ''VI_ERROR_CLOSING_FAILED''"]
    disconnect_instrument_cases [of one_session "''smu''" stuck 0
      "VisaIOError ''VI_ERROR_CLOSING_FAILED''"]
  by (simp add: double_defs)

text \<open>
  C9. \<^verbatim>\<open>connect_instrument(address, "")\<close> does what \<^verbatim>\<open>connect_instrument(address)\<close>
  does: the empty alias is false, so on success the new handle is registered under
  \<open>address\<close> and the entry of the key \<^verbatim>\<open>""\<close> is left as it was.
\<close>

theorem empty_alias_is_address:
  "connect_instrument E address (Some []) s = connect_instrument E address None s
 \<and> (connect_instrument E address (Some []) s = (Inr True, s') \<longrightarrow>
      instruments s' = AList.update address (next_handle s) (instruments s)
    \<and> map_of (instruments s') address = Some (next_handle s)
    \<and> (address \<noteq> [] \<longrightarrow> map_of (instruments s') [] = map_of (instruments s) []))"
proof -
  have same: "connect_instrument E address (Some []) s = connect_instrument E address None s"
    by (simp add: connect_instrument_def truthy_def)
  have "instruments s' = AList.update address (next_handle s) (instruments s)"
    if "connect_instrument E address (Some []) s = (Inr True, s')"
    using connect_instrument_success[OF that] by (simp add: truthy_def)
  then show ?thesis
    using same by (auto simp: AList.update_conv')
qed

theorem empty_alias_is_address_witness:
  "connect_instrument stub ''GPIB0::10::INSTR'' (Some []) one_session =
     (Inr True,
      \<lparr>instruments = [(''smu'', 0), (''GPIB0::10::INSTR'', 1)],
       trace = [(0, OpenResource ''GPIB0::10::INSTR'', Opened 1), (0, SetTimeout 1 10000, Done),
                (0, SetWriteTermination 1 [CHR 0x0A], Done),
                (0, SetReadTermination 1 [CHR 0x0A], Done)],
       clock = 0, next_handle = 2\<rparr>)
 \<and> map_of [(''smu'', 0), (''GPIB0::10::INSTR'', 1 :: nat)] ''GPIB0::10::INSTR'' = Some 1
 \<and> ''GPIB0::10::INSTR'' \<noteq> []
 \<and> map_of [(''smu'', 0), (''GPIB0::10::INSTR'', 1 :: nat)] [] = None"
  using empty_alias_is_address [of stub "''GPIB0::10::INSTR''" one_session
      "snd (connect_instrument stub ''GPIB0::10::INSTR'' (Some []) one_session)"]
  by (simp add: connect_instrument_stub truthy_def one_session_def)








text \<open>
  C10. For a key that is not in the registry \<^verbatim>\<open>wait_for_completion\<close> returns
  \<^verbatim>\<open>False\<close>, never \<^verbatim>\<open>True\<close>, and not at once: it makes no transport call and
  sleeps 0.1 s per round until the elapsed time has reached the timeout.
\<close>

theorem absent_key_waits_out:
  assumes "map_of (instruments s) key = None"
  shows "wait_for_completion E key timeout s =
           (Inr False, s\<lparr>clock := clock s + of_nat (nat \<lceil>timeout * 10\<rceil>) / 10\<rparr>)
       \<and> timeout \<le> of_nat (nat \<lceil>timeout * 10\<rceil>) / 10"
proof -
  have a: "timeout * 10 \<le> of_int \<lceil>timeout * 10\<rceil>"
    by (rule le_of_int_ceiling)
  have "\<lceil>timeout * 10\<rceil> \<le> int (nat \<lceil>timeout * 10\<rceil>)"
    by linarith
  then have "(of_int \<lceil>timeout * 10\<rceil> :: rat) \<le> of_int (int (nat \<lceil>timeout * 10\<rceil>))"
    by (rule iffD2[OF of_int_le_iff])
  then have b: "(of_int \<lceil>timeout * 10\<rceil> :: rat) \<le> of_nat (nat \<lceil>timeout * 10\<rceil>)"
    by (simp only: of_int_of_nat_eq)
  from a b have "timeout * 10 \<le> of_nat (nat \<lceil>timeout * 10\<rceil>)"
    by (rule order_trans)
  then have "timeout \<le> of_nat (nat \<lceil>timeout * 10\<rceil>) / 10"
    by simp
  then show ?thesis
    using wait_loop_absent[OF assms, of E "clock s" timeout]
    by (simp add: wait_for_completion_def)
qed

theorem absent_key_waits_out_witness:
  "map_of (instruments one_session) ''dmm'' = None
 \<and> wait_for_completion ready ''dmm'' 1 one_session =
      (Inr False,
       \<lparr>instruments = [(''smu'', 0)], trace = [], clock = 1, next_handle = 1\<rparr>)"
  using absent_key_waits_out [of one_session "''dmm''" ready 1]
  by (simp add: one_session_def)

text \<open>
  C4, as stated, fails for the alias \<^verbatim>\<open>""\<close>. The registry can hold the key
  \<^verbatim>\<open>""\<close>, from a \<^verbatim>\<open>connect_instrument("")\<close> without alias. A later
  \<^verbatim>\<open>connect_instrument("GPIB0::10::INSTR", "")\<close> succeeds and stores the new handle
  under the address: the entry under \<^verbatim>\<open>""\<close> still maps to the old handle.
\<close>

theorem empty_alias_counterexample:
  "map_of (instruments empty_key_session) [] = Some 0
 \<and> fst (connect_instrument stub ''GPIB0::10::INSTR'' (Some []) empty_key_session) = Inr True
 \<and> map_of (instruments (snd (connect_instrument stub ''GPIB0::10::INSTR'' (Some [])
       empty_key_session))) [] = Some 0
 \<and> next_handle empty_key_session = 1
 \<and> map_of (instruments (snd (connect_instrument stub ''GPIB0::10::INSTR'' (Some [])
       empty_key_session))) [] \<noteq> Some (next_handle empty_key_session)"
  by (simp add: empty_key_session_def connect_instrument_stub truthy_def idle_def)

text \<open>
  C4, amended. For every non-empty alias present in the registry of a well-formed
  state, a successful \<^verbatim>\<open>connect_instrument(address2, alias)\<close> replaces the entry under
  that alias with the newly opened handle; the handle registered before is a different
  one, is no longer registered, and receives no \<^verbatim>\<open>close\<close> call, neither from the
  connect nor from any sequence of public calls made afterwards.
\<close>

theorem replaced_handle_never_closed:
  assumes "registry_ok s"
    and "nick \<noteq> []"
    and "map_of (instruments s) nick = Some old"
    and "connect_instrument E address2 (Some nick) s = (Inr True, s1)"
  shows "map_of (instruments s1) nick = Some (next_handle s)
       \<and> next_handle s \<noteq> old
       \<and> old \<notin> handles s1
       \<and> Close old \<notin> set (calls (since s (perform_all E requests s1)))"
proof -
  note s1 = connect_instrument_success[OF assms(4)]
  have inst: "instruments s1 = AList.update nick (next_handle s) (instruments s)"
    and nh: "next_handle s1 = Suc (next_handle s)"
    and tr: "trace s1 = trace s @
                  [(clock s, OpenResource address2, Opened (next_handle s)),
                   (clock s, SetTimeout (next_handle s) 10000, Done),
                   (clock s, SetWriteTermination (next_handle s) [CHR 0x0A], Done),
                   (clock s, SetReadTermination (next_handle s) [CHR 0x0A], Done)]"
    using assms(2) by (simp_all add: s1 truthy_def)
  have "old \<in> snd ` set (instruments s)"
    using assms(3) by (force dest!: map_of_SomeD simp: image_iff)
  then have lt: "old < next_handle s"
    using assms(1) by (auto simp: registry_ok_def)
  then have ne: "next_handle s \<noteq> old" by simp
  have gone: "old \<notin> handles s1"
    unfolding handles_def inst
    using assms(1,3) ne by (intro replaced_handle_gone) (simp_all add: registry_ok_def)
  obtain es where t: "trace (perform_all E requests s1) = trace s1 @ es"
    and c: "Close old \<notin> set (calls es)"
    using perform_all_never_closes[OF gone, of E requests] lt nh by auto
  have "Close old \<notin> set (calls (since s (perform_all E requests s1)))"
    using t c by (simp add: since_def tr calls_simps)
  moreover have "map_of (instruments s1) nick = Some (next_handle s)"
    by (simp add: inst AList.update_conv')
  ultimately show ?thesis
    using ne gone by simp
qed

theorem replaced_handle_never_closed_witness:
  "registry_ok one_session \<and> ''smu'' \<noteq> [] \<and> map_of (instruments one_session) ''smu'' = Some 0
 \<and> connect_instrument stub ''GPIB0::11::INSTR'' (Some ''smu'') one_session =
      (Inr True,
       \<lparr>instruments = [(''smu'', 1)],
        trace = [(0, OpenResource ''GPIB0::11::INSTR'', Opened 1), (0, SetTimeout 1 10000, Done),
                 (0, SetWriteTermination 1 [CHR 0x0A], Done),
                 (0, SetReadTermination 1 [CHR 0x0A], Done)],
        clock = 0, next_handle = 2\<rparr>)
 \<and> Close 0 \<notin> set (calls (since one_session
        (perform_all stub [DoDisconnect ''smu'', DoCloseAll]
          \<lparr>instruments = [(''smu'', 1)],
           trace = [(0, OpenResource ''GPIB0::11::INSTR'', Opened 1), (0, SetTimeout 1 10000, Done),
                 (0, SetWriteTermination 1 [CHR 0x0A], Done),
                 (0, SetReadTermination 1 [CHR 0x0A], Done)],
           clock = 0, next_handle = 2\<rparr>)))"
  using replaced_handle_never_closed [of one_session "''smu''" 0 stub "''GPIB0::11::INSTR''"
     "\<lparr>instruments = [(''smu'', 1)],
        trace = [(0, OpenResource ''GPIB0::11::INSTR'', Opened 1), (0, SetTimeout 1 10000, Done),
                 (0, SetWriteTermination 1 [CHR 0x0A], Done),
                 (0, SetReadTermination 1 [CHR 0x0A], Done)],
        clock = 0, next_handle = 2\<rparr>" "[DoDisconnect ''smu'', DoCloseAll]"]
  by (simp add: connect_instrument_stub truthy_def one_session_def registry_ok_def)

text \<open>
  C1, as stated, fails. With three sessions and a transport on which the \<^verbatim>\<open>close\<close>
  of the second handle raises, \<^verbatim>\<open>close_all_connections\<close> makes its three
  \<^verbatim>\<open>close\<close> calls and the call on the resource manager, and the second session is
  still registered afterwards: \<^verbatim>\<open>disconnect_instrument\<close> skips the \<^verbatim>\<open>del\<close> when
  \<^verbatim>\<open>close\<close> raises.
\<close>

theorem close_all_counterexample:
  "instruments (snd (close_all_connections flaky three_sessions)) = [(''dmm'', 1)]
 \<and> instruments (snd (close_all_connections flaky three_sessions)) \<noteq> []
 \<and> calls (since three_sessions (snd (close_all_connections flaky three_sessions)))
     = [Close 0, Close 1, Close 2, RmClose]"
  unfolding close_all_flaky
  by (simp add: since_def calls_simps three_sessions_def)

text \<open>
  C1, amended. On every well-formed registry state \<^verbatim>\<open>close_all_connections\<close>
  returns, having made one \<^verbatim>\<open>close\<close> call on each registered handle, in the order
  of the registry, and then one \<^verbatim>\<open>close\<close> call on the resource manager, whether or
  not any of these raises. The registry it leaves holds the entries whose \<^verbatim>\<open>close\<close>
  raised; it is empty when none raised.
\<close>

theorem close_all_closes_each_once:
  assumes "registry_ok s"
  shows "fst (close_all_connections E s) = Inr ()
       \<and> calls (since s (snd (close_all_connections E s)))
           = map (\<lambda>(k, h). Close h) (instruments s) @ [RmClose]
       \<and> (\<forall>h \<in> handles s.
            count_list (calls (since s (snd (close_all_connections E s)))) (Close h) = 1)
       \<and> count_list (calls (since s (snd (close_all_connections E s)))) RmClose = 1
       \<and> instruments (snd (close_all_connections E s))
           = filter (\<lambda>(k, h). close_raised (since s (snd (close_all_connections E s))) h)
               (instruments s)
       \<and> ((\<forall>h \<in> handles s. \<not> close_raised (since s (snd (close_all_connections E s))) h)
            \<longrightarrow> instruments (snd (close_all_connections E s)) = [])"
proof -
  have dk: "distinct (map fst (instruments s))" and dh: "distinct (map snd (instruments s))"
    using assms by (simp_all add: registry_ok_def)
  obtain s' es out where r: "close_all_connections E s = (Inr (), s')"
    and t: "trace s' = trace s @ es @ [(clock s', RmClose, out)]"
    and c: "calls es = map (\<lambda>(k, h). Close h) (instruments s)"
    and i: "instruments s' = filter (\<lambda>(k, h). close_raised es h) (instruments s)"
    using close_all_connections_run[OF dk dh, of E] by blast
  let ?new = "since s s'"
  have new: "?new = es @ [(clock s', RmClose, out)]"
    using t by (simp add: since_def)
  have calls: "calls ?new = map (\<lambda>(k, h). Close h) (instruments s) @ [RmClose]"
    by (simp add: new calls_simps c)
  have once: "count_list (calls ?new) (Close h) = 1" if "h \<in> handles s" for h
    using that dh by (simp add: calls count_closes count_list_distinct handles_def)
  have rm: "count_list (calls ?new) RmClose = 1"
    by (simp add: calls count_closes_rm)
  have raised: "close_raised ?new h = close_raised es h" for h
    by (simp add: new close_raised_simps)
  have left: "instruments s' = filter (\<lambda>(k, h). close_raised ?new h) (instruments s)"
    using i by (simp add: raised)
  have none: "instruments s' = []" if "\<forall>h \<in> handles s. \<not> close_raised ?new h"
    using that unfolding left by (auto simp: filter_empty_conv handles_def)
  show ?thesis
    using r calls once rm left none by simp
qed

theorem close_all_closes_each_once_witness:
  "registry_ok three_sessions
 \<and> calls (since three_sessions (snd (close_all_connections flaky three_sessions)))
     = [Close 0, Close 1, Close 2, RmClose]
 \<and> instruments (snd (close_all_connections flaky three_sessions)) = [(''dmm'', 1)]
 \<and> close_raised (since three_sessions (snd (close_all_connections flaky three_sessions))) 1
 \<and> handles three_sessions = {0, 1, 2}
 \<and> \<not> close_raised (since three_sessions (snd (close_all_connections stub three_sessions))) 0
 \<and> \<not> close_raised (since three_sessions (snd (close_all_connections stub three_sessions))) 1
 \<and> \<not> close_raised (since three_sessions (snd (close_all_connections stub three_sessions))) 2
 \<and> instruments (snd (close_all_connections stub three_sessions)) = []"
  using close_all_closes_each_once [of three_sessions flaky]
    close_all_closes_each_once [of three_sessions stub]
  unfolding close_all_flaky close_all_stub
  by (simp add: since_def calls_simps close_raised_simps handles_def registry_ok_def
      three_sessions_def)

text \<open>
  C6. No public method lets an exception out: for every behaviour of the transport and
  every state, each of the eleven methods returns a value (\<^verbatim>\<open>wait_for_completion\<close>
  included, whose loop terminates). An exception of the resource manager or of a handle
  becomes the empty list for \<^verbatim>\<open>list_resources\<close>, \<^verbatim>\<open>False\<close> for
  \<^verbatim>\<open>connect_instrument\<close>, \<^verbatim>\<open>disconnect_instrument\<close> and \<^verbatim>\<open>send_command\<close>,
  \<^verbatim>\<open>None\<close> for \<^verbatim>\<open>query_command\<close> and \<^verbatim>\<open>read_response\<close>. Only the constructor
  passes on the exception of \<^verbatim>\<open>pyvisa.ResourceManager\<close>.
\<close>

theorem never_raises:
  "\<not> isl (fst (list_resources E s))
 \<and> \<not> isl (fst (connect_instrument E resource_name nick s))
 \<and> \<not> isl (fst (disconnect_instrument E key s))
 \<and> \<not> isl (fst (send_command E key command delay s))
 \<and> \<not> isl (fst (query_command E key command delay s))
 \<and> \<not> isl (fst (read_response E key s))
 \<and> \<not> isl (fst (get_identification E key s))
 \<and> \<not> isl (fst (reset_instrument E key s))
 \<and> \<not> isl (fst (clear_instrument E key s))
 \<and> \<not> isl (fst (wait_for_completion E key timeout s))
 \<and> \<not> isl (fst (close_all_connections E s))
 \<and> (raises E (trace s) (clock s) ListResources = Some e \<longrightarrow>
       fst (list_resources E s) = Inr [])
 \<and> (raises E (trace s) (clock s) (OpenResource resource_name) = Some e \<longrightarrow>
       fst (connect_instrument E resource_name nick s) = Inr False)
 \<and> (map_of (instruments s) key = Some h \<and> raises E (trace s) (clock s) (Close h) = Some e \<longrightarrow>
       fst (disconnect_instrument E key s) = Inr False)
 \<and> (map_of (instruments s) key = Some h
       \<and> raises E (trace s) (clock s) (Write h command) = Some e \<longrightarrow>
       fst (send_command E key command delay s) = Inr False)
 \<and> (map_of (instruments s) key = Some h
       \<and> raises E (trace s) (clock s) (Query h command) = Some e \<longrightarrow>
       fst (query_command E key command delay s) = Inr None)
 \<and> (map_of (instruments s) key = Some h \<and> raises E (trace s) (clock s) (Read h) = Some e \<longrightarrow>
       fst (read_response E key s) = Inr None)
 \<and> (raises E [] t0 (NewResourceManager (if truthy visa_library then visa_library else None))
       = Some e \<longrightarrow> init E visa_library t0 = Inl e)"
proof -
  have 1: "\<not> isl (fst (list_resources E s))"
    by (simp add: list_resources_run split: option.splits)
  have 2: "\<not> isl (fst (connect_instrument E resource_name nick s))"
    using connect_instrument_total[of E resource_name nick s] by auto
  have 3: "\<not> isl (fst (disconnect_instrument E key s))"
    by (simp add: disconnect_instrument_run split: option.splits)
  have 4: "\<not> isl (fst (send_command E key command delay s))" for command delay
    by (simp add: send_command_run split: option.splits)
  have 5: "\<not> isl (fst (query_command E key command delay s))" for command delay
    by (simp add: query_command_run split: option.splits)
  have 6: "\<not> isl (fst (read_response E key s))"
    by (simp add: read_response_run split: option.splits)
  have 7: "\<not> isl (fst (wait_for_completion E key timeout s))"
    using wait_loop_result[of E key "clock s" timeout s]
    by (auto simp: wait_for_completion_def)
  have 8: "\<not> isl (fst (close_all_connections E s))"
    using close_all_connections_frame[of E s] by auto
  have 9: "fst (list_resources E s) = Inr []"
    if "raises E (trace s) (clock s) ListResources = Some e"
    using that by (simp add: list_resources_run)
  have 10: "fst (connect_instrument E resource_name nick s) = Inr False"
    if "raises E (trace s) (clock s) (OpenResource resource_name) = Some e"
    using that by (simp add: connect_instrument_def rm_open_resource_def prog_defs)
  have 11: "fst (disconnect_instrument E key s) = Inr False"
    if "map_of (instruments s) key = Some h" "raises E (trace s) (clock s) (Close h) = Some e"
    using that by (simp add: disconnect_instrument_run)
  have 12: "fst (send_command E key command delay s) = Inr False"
    if "map_of (instruments s) key = Some h"
      "raises E (trace s) (clock s) (Write h command) = Some e"
    using that by (simp add: send_command_run)
  have 13: "fst (query_command E key command delay s) = Inr None"
    if "map_of (instruments s) key = Some h"
      "raises E (trace s) (clock s) (Query h command) = Some e"
    using that by (simp add: query_command_run)
  have 14: "fst (read_response E key s) = Inr None"
    if "map_of (instruments s) key = Some h" "raises E (trace s) (clock s) (Read h) = Some e"
    using that by (simp add: read_response_run)
  have 15: "init E visa_library t0 = Inl e"
    if "raises E [] t0 (NewResourceManager (if truthy visa_library then visa_library else None))
       = Some e"
    using that by (simp add: init_def)
  show ?thesis
    using 1 2 3 4 5 6 7 8 9 10 11 12 13 14 15
    by (simp add: get_identification_def reset_instrument_def clear_instrument_def)
qed

theorem never_raises_witness:
  "raises broken (trace one_session) (clock one_session) ListResources
     = Some (VisaIOError ''VI_ERROR_SYSTEM_ERROR'')
 \<and> map_of (instruments one_session) ''smu'' = Some 0
 \<and> fst (list_resources broken one_session) = Inr []
 \<and> fst (connect_instrument broken ''GPIB0::10::INSTR'' None one_session) = Inr False
 \<and> fst (disconnect_instrument broken ''smu'' one_session) = Inr False
 \<and> fst (send_command broken ''smu'' ''*RST'' 2 one_session) = Inr False
 \<and> fst (query_command broken ''smu'' ''*RST'' 2 one_session) = Inr None
 \<and> fst (read_response broken ''smu'' one_session) = Inr None
 \<and> \<not> isl (fst (wait_for_completion broken ''smu'' 30 one_session))
 \<and> \<not> isl (fst (close_all_connections broken one_session))
 \<and> init broken None 0 = Inl (VisaIOError ''VI_ERROR_SYSTEM_ERROR'')"
  using never_raises [of broken one_session "''GPIB0::10::INSTR''" None "''smu''" "''*RST''" 2 30
      "VisaIOError ''VI_ERROR_SYSTEM_ERROR''" 0 0 None]
  by (simp add: broken_def one_session_def truthy_def)

end
